theory Spec2Isabelle
  imports Complex_Main "HOL-Library.Multiset" "HOL-Library.AList"
    "HOL-Library.Char_ord" "HOL-Library.List_Lexorder"
begin

section \<open>The Spark driver of the reddit TF-IDF pipeline\<close>

text \<open>
  A shallow embedding of \<^verbatim>\<open>src/processing/spark/driver.py\<close>: the command-line
  defaults, the \<^verbatim>\<open>TopKWords\<close> transformer with its per-row function
  \<^verbatim>\<open>getTopKWords\<close>, the column drop and the naming and writing of the result table.
  The vocabulary and the vectors that Spark's CountVectorizer and IDF hand to the
  driver are modelled from the specification.

  Scores are Python floats. Everything the driver does with them is comparing and
  sorting, so a score is a value of a linear order with a zero; NaN and the rounding to
  \<^verbatim>\<open>FloatType\<close> on the way out are not modelled (that rounding is monotone).
  Strings are byte lists; the characters the driver looks at (\<^verbatim>\<open>/ - _ .\<close>) are
  ASCII, and no byte of a multi-byte UTF-8 sequence is one of them.
\<close>

datatype error = IndexError | AttributeError | AnalysisException | ParseException

subsection \<open>Command line (lines 30--39)\<close>

text \<open>
  \<^verbatim>\<open>cmdline\<close> is what the user typed, after argparse has applied each option's
  \<^verbatim>\<open>type=\<close>: an option is either absent or carries a value. \<^verbatim>\<open>parse_args\<close>
  fills in the \<^verbatim>\<open>default=\<close> of every absent option; \<^verbatim>\<open>--filepath\<close> has none and
  stays \<^verbatim>\<open>None\<close>.
\<close>

record cmdline =
  opt_filepath :: "string option"
  opt_minlength :: "int option"
  opt_nwords :: "int option"
  opt_nsubreddits :: "int option"
  opt_mindf :: "real option"
  opt_vocabsize :: "int option"

record args =
  filepath :: "string option"
  minlength :: int
  nwords :: int
  nsubreddits :: int
  mindf :: real
  vocabsize :: int

definition or_default :: "'a option \<Rightarrow> 'a \<Rightarrow> 'a" where
  "or_default v d = (case v of None \<Rightarrow> d | Some x \<Rightarrow> x)"

definition parse_args :: "cmdline \<Rightarrow> args" where
  "parse_args c =
     \<lparr> filepath = opt_filepath c,
       minlength = or_default (opt_minlength c) 50000,
       nwords = or_default (opt_nwords c) 10,
       nsubreddits = or_default (opt_nsubreddits c) 10,
       mindf = or_default (opt_mindf c) 1.0,
       vocabsize = or_default (opt_vocabsize c) 20000 \<rparr>"

definition no_options :: cmdline where
  "no_options =
     \<lparr> opt_filepath = None, opt_minlength = None, opt_nwords = None,
       opt_nsubreddits = None, opt_mindf = None, opt_vocabsize = None \<rparr>"

subsection \<open>Vectors, slices and argsort\<close>

text \<open>
  A Spark vector is dense or sparse; \<^verbatim>\<open>toArray\<close> makes the dense array:
  zeros of the vector's size, with the stored values written at the stored indices.
  The constructor of a sparse vector asserts that its indices increase strictly and
  stay below the size, so every one of these writes is in range.
\<close>

datatype 'a vector = DenseVector "'a list" | SparseVector nat "nat list" "'a list"

fun vector_size :: "'a vector \<Rightarrow> nat" where
  "vector_size (DenseVector vs) = length vs"
| "vector_size (SparseVector n ixs vs) = n"

fun toArray :: "'a::zero vector \<Rightarrow> 'a list" where
  "toArray (DenseVector vs) = vs"
| "toArray (SparseVector n ixs vs) =
     fold (\<lambda>(i, v) arr. arr[i := v]) (zip ixs vs) (replicate n 0)"

text \<open>
  The Python slice \<^verbatim>\<open>a[s:]\<close> for any integer \<^verbatim>\<open>s\<close>: a negative start counts from
  the end, and the start is clamped to the array. So \<^verbatim>\<open>a[-k:]\<close> is the last
  \<^verbatim>\<open>k\<close> elements for \<^verbatim>\<open>k > 0\<close>, the whole array for \<^verbatim>\<open>k = 0\<close>, and the array
  without its first \<^verbatim>\<open>-k\<close> elements for \<^verbatim>\<open>k < 0\<close>.
\<close>

definition slice_from :: "int \<Rightarrow> 'a list \<Rightarrow> 'a list" where
  "slice_from s a =
     (let n = int (length a);
          start = (if s < 0 then max 0 (s + n) else min s n)
      in drop (nat start) a)"

text \<open>
  \<^verbatim>\<open>ndarray.argsort()\<close> belongs to numpy. Its contract is that the result is a
  permutation of the positions of the array that lists the values in ascending order;
  the default sort kind is not a stable one, so the order of positions that hold equal
  values is whatever the sort leaves. \<^verbatim>\<open>valid_argsort a ix\<close> is the contract.
  \<^verbatim>\<open>argsort\<close> is one function that meets it: the insertion sort numpy runs on
  short arrays, which keeps equal values in the order of their positions.
\<close>

definition valid_argsort :: "'a::linorder list \<Rightarrow> nat list \<Rightarrow> bool" where
  "valid_argsort a ix \<longleftrightarrow> sort ix = [0..<length a] \<and> sorted (map (\<lambda>i. a ! i) ix)"

definition argsort :: "'a::linorder list \<Rightarrow> nat list" where
  "argsort a = sort_key (\<lambda>i. a ! i) [0..<length a]"

text \<open>
  Indexing with a list of positions: \<^verbatim>\<open>tfidfs[indices]\<close> on an array and
  \<^verbatim>\<open>[vocab[i] for i in indices]\<close> on a list. Both raise \<^verbatim>\<open>IndexError\<close> at a
  position past the end. The positions come from \<^verbatim>\<open>argsort\<close> and are never negative.
\<close>

definition take_at :: "'a list \<Rightarrow> nat list \<Rightarrow> error + 'a list" where
  "take_at a ix =
     (if list_all (\<lambda>i. i < length a) ix then Inr (map (\<lambda>i. a ! i) ix) else Inl IndexError)"

subsection \<open>TopKWords (lines 48--84)\<close>

record TopKWords =
  self_inputCol :: "string option"
  self_outputCol :: "string option"
  self_key :: "string option"
  self_val :: "string option"
  self_nwords :: int

text \<open>\<^verbatim>\<open>__init__\<close> stores its arguments; it has no check and no raise.\<close>

definition TopKWords_init ::
  "string option \<Rightarrow> string option \<Rightarrow> string option \<Rightarrow> string option \<Rightarrow> int \<Rightarrow> error + TopKWords" where
  "TopKWords_init key val inputCol outputCol nw =
     Inr \<lparr> self_inputCol = inputCol, self_outputCol = outputCol,
           self_key = key, self_val = val, self_nwords = nw \<rparr>"

text \<open>Line 97: the driver builds the stage from the parsed arguments.\<close>

definition topkwords :: "args \<Rightarrow> error + TopKWords" where
  "topkwords a = TopKWords_init None None (Some ''tfidf'') (Some ''top_words'') (nwords a)"

text \<open>
  Line 78, \<^verbatim>\<open>indices = tfidfs.argsort()[-k:][::-1]\<close>, with the argsort function as
  a parameter.
\<close>

definition topk_indices :: "('a list \<Rightarrow> nat list) \<Rightarrow> 'a list \<Rightarrow> int \<Rightarrow> nat list" where
  "topk_indices asort tfidfs k = rev (slice_from (- k) (asort tfidfs))"

text \<open>
  Lines 76--80. \<^verbatim>\<open>vocab\<close> is the global of line 109, the vocabulary of the fitted
  CountVectorizer; it is read when the function runs.
\<close>

definition getTopKWords ::
  "('a list \<Rightarrow> nat list) \<Rightarrow> string list \<Rightarrow> 'a::zero vector \<Rightarrow> int \<Rightarrow> error + ('a list \<times> string list)" where
  "getTopKWords asort vocab x k =
     (let tfidfs = toArray x;
          indices = topk_indices asort tfidfs k
      in case take_at tfidfs indices of
           Inl e \<Rightarrow> Inl e
         | Inr scores \<Rightarrow>
             (case take_at vocab indices of
                Inl e \<Rightarrow> Inl e
              | Inr ws \<Rightarrow> Inr (scores, ws)))"

text \<open>The number of non-zero entries of a document's vector.\<close>

definition nonzero_entries :: "'a::zero vector \<Rightarrow> nat" where
  "nonzero_entries x = length (filter (\<lambda>v. v \<noteq> 0) (toArray x))"

text \<open>
  A dataframe is its columns in schema order, each a name with one cell per row.
  \<^verbatim>\<open>withColumn\<close> replaces the column of that name where it stands, or appends a new
  one; \<^verbatim>\<open>drop\<close> removes the named columns that exist and ignores the other names.
\<close>

datatype 'a cell =
    Text string
  | Strings "string list"
  | Vec "'a vector"
  | TopWords "'a list" "string list"
  | Num 'a

type_synonym 'a dataframe = "(string \<times> 'a cell list) list"

definition withColumn :: "string \<Rightarrow> 'a cell list \<Rightarrow> 'a dataframe \<Rightarrow> 'a dataframe" where
  "withColumn name c df = AList.update name c df"

definition drop_columns :: "string list \<Rightarrow> 'a dataframe \<Rightarrow> 'a dataframe" where
  "drop_columns names df = filter (\<lambda>(name, c). name \<notin> set names) df"

text \<open>
  Line 82: the udf applies \<^verbatim>\<open>getTopKWords\<close> with \<^verbatim>\<open>k = self.nwords\<close> to the cell
  of one row. A cell that is not a vector has no \<^verbatim>\<open>toArray\<close>.
\<close>

definition topkwords_udf ::
  "('a list \<Rightarrow> nat list) \<Rightarrow> string list \<Rightarrow> TopKWords \<Rightarrow> 'a::zero cell \<Rightarrow> error + 'a cell" where
  "topkwords_udf asort vocab self c =
     (case c of
        Vec x \<Rightarrow>
          (case getTopKWords asort vocab x (self_nwords self) of
             Inl e \<Rightarrow> Inl e
           | Inr (scores, ws) \<Rightarrow> Inr (TopWords scores ws))
      | _ \<Rightarrow> Inl AttributeError)"

text \<open>A failing row fails the job: the first error of the column is the result.\<close>

fun map_rows :: "('a \<Rightarrow> error + 'b) \<Rightarrow> 'a list \<Rightarrow> error + 'b list" where
  "map_rows f [] = Inr []"
| "map_rows f (c # cs) =
     (case f c of
        Inl e \<Rightarrow> Inl e
      | Inr v \<Rightarrow> (case map_rows f cs of Inl e \<Rightarrow> Inl e | Inr vs \<Rightarrow> Inr (v # vs)))"

text \<open>
  Lines 70--84. The column names \<^verbatim>\<open>tfidf\<close> and \<^verbatim>\<open>top_words\<close> are written out in
  the source; \<^verbatim>\<open>self.inputCol\<close> and \<^verbatim>\<open>self.outputCol\<close> are not used.
\<close>

definition transform ::
  "('a list \<Rightarrow> nat list) \<Rightarrow> string list \<Rightarrow> TopKWords \<Rightarrow> 'a::zero dataframe \<Rightarrow> error + 'a dataframe" where
  "transform asort vocab self df =
     (case map_of df ''tfidf'' of
        None \<Rightarrow> Inl AnalysisException
      | Some c \<Rightarrow>
          (case map_rows (topkwords_udf asort vocab self) c of
             Inl e \<Rightarrow> Inl e
           | Inr tw \<Rightarrow> Inr (withColumn ''top_words'' tw df)))"

subsection \<open>The vocabulary and the vectors of the documents (lines 95--96, 106--109)\<close>

text \<open>
  The driver takes the vocabulary and the vectors from Spark's CountVectorizer and IDF,
  whose code is not part of the repository; the driver only passes them
  \<^verbatim>\<open>args.mindf\<close> and \<^verbatim>\<open>args.vocabsize\<close> and reads the fitted vocabulary back.
  A document is the list of its tokens.
\<close>

type_synonym document = "string list"

text \<open>
  Modelled from the spec: the frequency of a term over the corpus and its document
  frequency, by which the VocabularyBuilder of section 4.6 (CountVectorizer, absent
  from the sources) selects the terms.
\<close>

definition term_frequency :: "document list \<Rightarrow> string \<Rightarrow> nat" where
  "term_frequency docs t = sum_list (map (\<lambda>d. count_list d t) docs)"

definition doc_frequency :: "document list \<Rightarrow> string \<Rightarrow> nat" where
  "doc_frequency docs t = length (filter (\<lambda>d. t \<in> set d) docs)"

text \<open>
  Modelled from the spec: the minimum document frequency of the VocabularyBuilder
  (section 4.6; CountVectorizer, absent from the sources), "given as an absolute count
  or a fraction of total documents": a value of at least one is a count, a smaller
  one a fraction.
\<close>

definition meets_mindf :: "real \<Rightarrow> document list \<Rightarrow> string \<Rightarrow> bool" where
  "meets_mindf m docs t \<longleftrightarrow>
     (if 1 \<le> m then m \<le> real (doc_frequency docs t)
      else m * real (length docs) \<le> real (doc_frequency docs t))"

text \<open>
  Modelled from the spec: the vocabulary of the VocabularyBuilder (section 4.6;
  CountVectorizer, absent from the sources), "the top vocabsize most frequent distinct
  terms satisfying mindf", terms of equal frequency in lexicographic order. The terms
  are sorted lexicographically and then, stably, by descending frequency.
\<close>

definition vocabulary :: "int \<Rightarrow> real \<Rightarrow> document list \<Rightarrow> string list" where
  "vocabulary vsize m docs =
     take (nat vsize)
       (sort_key (\<lambda>t. - int (term_frequency docs t))
          (sort (filter (meets_mindf m docs) (remdups (concat docs)))))"

text \<open>
  Modelled from the spec: the TermVector of a document as the VocabularyBuilder
  produces it (section 4.6; CountVectorizer, absent from the sources), "raw term
  counts indexed into that vocabulary, ignoring tokens not in the vocabulary", a
  sparse vector of the size of the vocabulary that stores the positions of the terms
  the document holds.
\<close>

definition count_vector :: "string list \<Rightarrow> document \<Rightarrow> real vector" where
  "count_vector vocab d =
     (let ixs = filter (\<lambda>i. vocab ! i \<in> set d) [0..<length vocab]
      in SparseVector (length vocab) ixs (map (\<lambda>i. real (count_list d (vocab ! i))) ixs))"

text \<open>
  Modelled from the spec: the IDFWeighter of section 4.7 (IDF, absent from the
  sources), \<^verbatim>\<open>idf(t) = ln((N + 1) / (df(t) + 1)) + 1\<close> and
  \<^verbatim>\<open>tfidf(t, d) = tf(t, d) * idf(t)\<close>, the output "dense over the vocabulary size".
\<close>

definition idf :: "document list \<Rightarrow> string \<Rightarrow> real" where
  "idf docs t = ln ((real (length docs) + 1) / (real (doc_frequency docs t) + 1)) + 1"

definition tfidf_vector :: "document list \<Rightarrow> string list \<Rightarrow> real vector \<Rightarrow> real vector" where
  "tfidf_vector docs vocab tf =
     DenseVector (map (\<lambda>i. toArray tf ! i * idf docs (vocab ! i)) [0..<length vocab])"

text \<open>The positions a vector stores: all of them when dense, the listed ones when sparse.\<close>

fun vector_indices :: "'a vector \<Rightarrow> nat list" where
  "vector_indices (DenseVector vs) = [0..<length vs]"
| "vector_indices (SparseVector n ixs vs) = ixs"

text \<open>
  Lines 95 and 106--109: the vocabulary fitted with \<^verbatim>\<open>minDF=args.mindf\<close> and
  \<^verbatim>\<open>vocabSize=args.vocabsize\<close>, which the driver reads back into \<^verbatim>\<open>vocab\<close>; and
  the vector in the column \<^verbatim>\<open>tfidf\<close> of a document (lines 95--96).
\<close>

definition fitted_vocab :: "args \<Rightarrow> document list \<Rightarrow> string list" where
  "fitted_vocab a docs = vocabulary (vocabsize a) (mindf a) docs"

definition tf_column :: "args \<Rightarrow> document list \<Rightarrow> document \<Rightarrow> real vector" where
  "tf_column a docs d = count_vector (fitted_vocab a docs) d"

definition tfidf_column :: "args \<Rightarrow> document list \<Rightarrow> document \<Rightarrow> real vector" where
  "tfidf_column a docs d = tfidf_vector docs (fitted_vocab a docs) (tf_column a docs d)"

subsection \<open>Dropping columns and writing the table (lines 110--117)\<close>

definition dropped_columns :: "string list" where
  "dropped_columns = [''body'', ''cleaned'', ''tf'', ''tokens'', ''swr_tokens'', ''norm'']"

definition output_df :: "'a dataframe \<Rightarrow> 'a dataframe" where
  "output_df df = drop_columns dropped_columns df"

text \<open>
  \<^verbatim>\<open>os.path.normpath\<close> and \<^verbatim>\<open>os.path.basename\<close> of the POSIX path module, on
  which the driver runs. \<^verbatim>\<open>split\<close> and \<^verbatim>\<open>join\<close> are those of \<^verbatim>\<open>str\<close> for
  the separator \<^verbatim>\<open>/\<close>.
\<close>

fun split_sep :: "char \<Rightarrow> string \<Rightarrow> string list" where
  "split_sep sep [] = [ []]"
| "split_sep sep (c # cs) =
     (if c = sep then [] # split_sep sep cs
      else (case split_sep sep cs of
              [] \<Rightarrow> [ [c]]
            | w # ws \<Rightarrow> (c # w) # ws))"

fun join_sep :: "char \<Rightarrow> string list \<Rightarrow> string" where
  "join_sep sep [] = []"
| "join_sep sep [w] = w"
| "join_sep sep (w # ws) = w @ sep # join_sep sep ws"

definition startswith :: "string \<Rightarrow> string \<Rightarrow> bool" where
  "startswith s p \<longleftrightarrow> take (length p) s = p"

text \<open>
  The loop of \<^verbatim>\<open>normpath\<close> over the components; \<^verbatim>\<open>new_comps\<close> grows and
  shrinks at its end.
\<close>

fun norm_comps :: "nat \<Rightarrow> string list \<Rightarrow> string list \<Rightarrow> string list" where
  "norm_comps initial_slashes new_comps [] = new_comps"
| "norm_comps initial_slashes new_comps (comp' # comps) =
     (if comp' = [] \<or> comp' = ''.'' then norm_comps initial_slashes new_comps comps
      else if comp' \<noteq> ''..'' \<or> (initial_slashes = 0 \<and> new_comps = [])
                \<or> (new_comps \<noteq> [] \<and> last new_comps = ''..'')
        then norm_comps initial_slashes (new_comps @ [comp']) comps
      else if new_comps \<noteq> [] then norm_comps initial_slashes (butlast new_comps) comps
      else norm_comps initial_slashes new_comps comps)"

definition normpath :: "string \<Rightarrow> string" where
  "normpath path =
     (if path = [] then ''.''
      else
        let initial_slashes =
              (if startswith path ''/''
               then (if startswith path ''//'' \<and> \<not> startswith path ''///'' then 2 else 1)
               else 0);
            comps = norm_comps initial_slashes [] (split_sep CHR ''/'' path);
            joined = join_sep CHR ''/'' comps;
            p = (if initial_slashes \<noteq> 0
                 then replicate initial_slashes CHR ''/'' @ joined else joined)
        in if p = [] then ''.'' else p)"

text \<open>\<^verbatim>\<open>basename(p)\<close> is \<^verbatim>\<open>p[p.rfind('/') + 1:]\<close>: what follows the last slash.\<close>

definition basename :: "string \<Rightarrow> string" where
  "basename p = rev (takeWhile (\<lambda>c. c \<noteq> CHR ''/'') (rev p))"

text \<open>
  \<^verbatim>\<open>str.maketrans(x, y, z)\<close> builds a table that sends each character of \<^verbatim>\<open>x\<close>
  to the character of \<^verbatim>\<open>y\<close> at the same place and each character of \<^verbatim>\<open>z\<close> to
  \<^verbatim>\<open>None\<close>, the entries of \<^verbatim>\<open>z\<close> winning. \<^verbatim>\<open>translate\<close> deletes a character
  sent to \<^verbatim>\<open>None\<close>, replaces one sent to a character, and keeps one the table does
  not hold.
\<close>

definition maketrans :: "string \<Rightarrow> string \<Rightarrow> string \<Rightarrow> (char \<times> char option) list" where
  "maketrans x y z = map (\<lambda>c. (c, None)) z @ zip x (map Some y)"

definition translate :: "(char \<times> char option) list \<Rightarrow> string \<Rightarrow> string" where
  "translate table s =
     concat (map (\<lambda>c. case map_of table c of
                          None \<Rightarrow> [c]
                        | Some None \<Rightarrow> []
                        | Some (Some r) \<Rightarrow> [r]) s)"

definition trans_table :: "(char \<times> char option) list" where
  "trans_table = maketrans [] [] ''-_''"

definition table_name :: "string \<Rightarrow> string" where
  "table_name path = translate trans_table (basename (normpath path))"

text \<open>
  The rows of a dataframe, each a list of named cells. Every column of a dataframe
  has one cell per row, so the length of the first column is the number of rows.
\<close>

definition num_rows :: "'a dataframe \<Rightarrow> nat" where
  "num_rows df = (case df of [] \<Rightarrow> 0 | (name, c) # _ \<Rightarrow> length c)"

definition collect :: "'a dataframe \<Rightarrow> (string \<times> 'a cell) list list" where
  "collect df = map (\<lambda>i. map (\<lambda>(name, c). (name, c ! i)) df) [0..<num_rows df]"

text \<open>
  The table store of the session: a map from the names under which the catalog keeps
  its tables to the stored records. \<^verbatim>\<open>saveAsTable\<close> is Spark's. It first parses the
  name it is given as a table identifier: \<^verbatim>\<open>resolve\<close> stands for that step, with
  \<^verbatim>\<open>None\<close> where the parser rejects the name (an empty name, a name of digits only,
  a name with a space) and otherwise the name under which the catalog keeps the table,
  which is the identifier in lower case. Two names with the same resolved name are
  the same destination. For a table that exists already the four save modes do what
  Spark's documentation says: append adds the records, overwrite replaces the stored
  ones, the default raises, ignore leaves the table as it is.
\<close>

datatype save_mode = Append | Overwrite | ErrorIfExists | Ignore

type_synonym 'r catalog = "string \<Rightarrow> 'r list option"

definition saveAsTable ::
  "(string \<Rightarrow> string option) \<Rightarrow> save_mode \<Rightarrow> string \<Rightarrow> 'r list \<Rightarrow> 'r catalog
     \<Rightarrow> error + 'r catalog" where
  "saveAsTable resolve m name recs cat =
     (case resolve name of
        None \<Rightarrow> Inl ParseException
      | Some t \<Rightarrow>
          (case cat t of
             None \<Rightarrow> Inr (cat(t \<mapsto> recs))
           | Some old \<Rightarrow>
               (case m of
                  Append \<Rightarrow> Inr (cat(t \<mapsto> old @ recs))
                | Overwrite \<Rightarrow> Inr (cat(t \<mapsto> recs))
                | ErrorIfExists \<Rightarrow> Inl AnalysisException
                | Ignore \<Rightarrow> Inr cat)))"

text \<open>
  One resolver, for names that are certainly identifiers: a letter followed by letters,
  digits and underscores, kept in lower case. Spark's parser accepts other names too;
  the properties below are stated for every resolver.
\<close>

definition letters :: string where
  "letters = ''abcdefghijklmnopqrstuvwxyzABCDEFGHIJKLMNOPQRSTUVWXYZ''"

definition lower :: "string \<Rightarrow> string" where
  "lower s =
     map (\<lambda>c. case map_of (zip ''ABCDEFGHIJKLMNOPQRSTUVWXYZ'' ''abcdefghijklmnopqrstuvwxyz'') c of
                None \<Rightarrow> c
              | Some l \<Rightarrow> l) s"

definition plain_name :: "string \<Rightarrow> string option" where
  "plain_name name =
     (case name of
        [] \<Rightarrow> None
      | c # cs \<Rightarrow>
          if c \<in> set letters \<and> list_all (\<lambda>c. c \<in> set (letters @ ''0123456789_'')) cs
          then Some (lower name) else None)"

text \<open>Lines 112--117: drop the columns, name the table after the input file, write.\<close>

definition save_results ::
  "(string \<Rightarrow> string option) \<Rightarrow> string \<Rightarrow> 'a dataframe \<Rightarrow> (string \<times> 'a cell) list catalog
     \<Rightarrow> error + (string \<times> 'a cell) list catalog" where
  "save_results resolve path df cat =
     saveAsTable resolve Overwrite (table_name path) (collect (output_df df)) cat"

section \<open>Properties\<close>

subsection \<open>Arrays, slices and argsort\<close>

lemma length_fold_update:
  "length (fold (\<lambda>(i, v) arr. arr[i := v]) ps arr) = length arr"
  by (induction ps arbitrary: arr) (auto split: prod.splits)

lemma length_toArray: "length (toArray x) = vector_size x"
  by (cases x) (simp_all add: length_fold_update)

lemma slice_from_is_drop: "\<exists>d. slice_from s a = drop d a"
  by (auto simp: slice_from_def Let_def)

lemma slice_from_last:
  "0 < k \<Longrightarrow> slice_from (- k) a = drop (length a - nat k) a"
  by (auto simp: slice_from_def Let_def max_def intro!: arg_cong2[where f=drop])

lemma valid_argsort_mset: "valid_argsort a ix \<Longrightarrow> mset ix = mset [0..<length a]"
  unfolding valid_argsort_def by (metis mset_sort)

lemma valid_argsort_set: "valid_argsort a ix \<Longrightarrow> set ix = {0..<length a}"
  by (metis valid_argsort_mset set_mset_mset set_upt)

lemma valid_argsort_distinct: "valid_argsort a ix \<Longrightarrow> distinct ix"
  by (metis valid_argsort_mset distinct_upt mset_eq_imp_distinct_iff)

lemma valid_argsort_length: "valid_argsort a ix \<Longrightarrow> length ix = length a"
  by (metis valid_argsort_mset size_mset length_upt diff_zero)

lemma valid_argsort_sorted: "valid_argsort a ix \<Longrightarrow> sorted (map (\<lambda>i. a ! i) ix)"
  by (simp add: valid_argsort_def)

text \<open>The insertion sort meets the contract of \<^verbatim>\<open>argsort\<close> on every array.\<close>

lemma valid_argsort_argsort: "valid_argsort a (argsort a)"
proof -
  have "sort (sort_key (\<lambda>i. a ! i) [0..<length a]) = [0..<length a]"
    by (rule properties_for_sort) simp_all
  then show ?thesis
    by (simp add: valid_argsort_def argsort_def)
qed

subsection \<open>The selected positions\<close>

lemma topk_indices_drop:
  "\<exists>d. topk_indices asort a k = rev (drop d (asort a))"
  using slice_from_is_drop[of "- k" "asort a"] by (auto simp: topk_indices_def)

lemma topk_indices_distinct:
  "valid_argsort a (asort a) \<Longrightarrow> distinct (topk_indices asort a k)"
  using topk_indices_drop[of asort a k] by (auto dest: valid_argsort_distinct)

lemma topk_indices_range:
  "valid_argsort a (asort a) \<Longrightarrow> i \<in> set (topk_indices asort a k) \<Longrightarrow> i < length a"
proof -
  assume v: "valid_argsort a (asort a)" and i: "i \<in> set (topk_indices asort a k)"
  obtain d where "topk_indices asort a k = rev (drop d (asort a))"
    using topk_indices_drop by blast
  with i have "i \<in> set (asort a)"
    by (auto dest: in_set_dropD)
  then show "i < length a"
    using valid_argsort_set[OF v] by simp
qed

lemma topk_indices_length:
  "valid_argsort a (asort a) \<Longrightarrow> 0 < k \<Longrightarrow>
     length (topk_indices asort a k) = min (nat k) (length a)"
  by (simp add: topk_indices_def slice_from_last valid_argsort_length)

lemma topk_indices_sorted:
  assumes "valid_argsort a (asort a)"
  shows "sorted (rev (map (\<lambda>i. a ! i) (topk_indices asort a k)))"
proof -
  obtain d where d: "topk_indices asort a k = rev (drop d (asort a))"
    using topk_indices_drop by blast
  have "sorted (drop d (map (\<lambda>i. a ! i) (asort a)))"
    using valid_argsort_sorted[OF assms] by (rule sorted_wrt_drop)
  then show ?thesis
    by (simp add: d rev_map drop_map)
qed

lemma topk_indices_top:
  assumes v: "valid_argsort a (asort a)"
    and i: "i \<in> set (topk_indices asort a k)"
    and j: "j < length a" "j \<notin> set (topk_indices asort a k)"
  shows "a ! j \<le> a ! i"
proof -
  obtain d where d: "topk_indices asort a k = rev (drop d (asort a))"
    using topk_indices_drop by blast
  have "j \<in> set (asort a)"
    using valid_argsort_set[OF v] j(1) by simp
  then have "j \<in> set (take d (asort a)) \<union> set (drop d (asort a))"
    by (metis append_take_drop_id set_append)
  with j(2) d have jt: "j \<in> set (take d (asort a))" by simp
  from i d have id: "i \<in> set (drop d (asort a))" by simp
  have "sorted (map (\<lambda>i. a ! i) (take d (asort a) @ drop d (asort a)))"
    using valid_argsort_sorted[OF v] by simp
  then show ?thesis
    using jt id unfolding map_append sorted_append by auto
qed

lemma take_at_Inr:
  "(\<And>i. i \<in> set ix \<Longrightarrow> i < length a) \<Longrightarrow> take_at a ix = Inr (map (\<lambda>i. a ! i) ix)"
  by (simp add: take_at_def list_all_iff)

text \<open>
  With a vocabulary that covers the vector, neither indexing raises, and the result is
  the scores and the words at the selected positions.
\<close>

lemma getTopKWords_Inr:
  assumes "valid_argsort (toArray x) (asort (toArray x))"
    and "vector_size x \<le> length vocab"
  shows "getTopKWords asort vocab x k =
    Inr (map (\<lambda>i. toArray x ! i) (topk_indices asort (toArray x) k),
         map (\<lambda>i. vocab ! i) (topk_indices asort (toArray x) k))"
proof -
  let ?ix = "topk_indices asort (toArray x) k"
  have r: "\<And>i. i \<in> set ?ix \<Longrightarrow> i < length (toArray x)"
    using topk_indices_range[of "toArray x" asort _ k] assms(1) by blast
  have "take_at (toArray x) ?ix = Inr (map (\<lambda>i. toArray x ! i) ?ix)"
    using r by (rule take_at_Inr)
  moreover have "take_at vocab ?ix = Inr (map (\<lambda>i. vocab ! i) ?ix)"
  proof (rule take_at_Inr)
    fix i assume "i \<in> set ?ix"
    then have "i < vector_size x" using r by (simp add: length_toArray)
    with assms(2) show "i < length vocab" by simp
  qed
  ultimately show ?thesis
    by (simp add: getTopKWords_def Let_def)
qed

subsection \<open>The stable argsort\<close>

text \<open>
  The insertion sort lists the positions by ascending value and, among equal values,
  by ascending position.
\<close>

lemma insort_key_ranked:
  fixes f :: "nat \<Rightarrow> 'a::linorder"
  assumes "sorted_wrt (\<lambda>i j. f i < f j \<or> (f i = f j \<and> i < j)) ys"
    and "\<forall>y\<in>set ys. x < y"
  shows "sorted_wrt (\<lambda>i j. f i < f j \<or> (f i = f j \<and> i < j)) (insort_key f x ys)"
  using assms
proof (induction ys)
  case Nil
  then show ?case by simp
next
  case (Cons y ys)
  show ?case
  proof (cases "f x \<le> f y")
    case True
    have "\<forall>z\<in>set (y # ys). f x < f z \<or> (f x = f z \<and> x < z)"
    proof
      fix z assume z: "z \<in> set (y # ys)"
      have "f y \<le> f z" using Cons.prems(1) z by auto
      with True have "f x \<le> f z" by simp
      moreover have "x < z" using Cons.prems(2) z by auto
      ultimately show "f x < f z \<or> (f x = f z \<and> x < z)" by auto
    qed
    with True Cons.prems(1) show ?thesis by simp
  next
    case False
    then have "f y < f x" by simp
    moreover have "sorted_wrt (\<lambda>i j. f i < f j \<or> (f i = f j \<and> i < j)) (insort_key f x ys)"
      using Cons by simp
    ultimately show ?thesis
      using False Cons.prems(1) by (auto simp: set_insort_key)
  qed
qed

lemma sort_key_ranked:
  fixes f :: "nat \<Rightarrow> 'a::linorder"
  assumes "sorted_wrt (<) xs"
  shows "sorted_wrt (\<lambda>i j. f i < f j \<or> (f i = f j \<and> i < j)) (sort_key f xs)"
  using assms
proof (induction xs)
  case Nil
  then show ?case by simp
next
  case (Cons x xs)
  have "sorted_wrt (\<lambda>i j. f i < f j \<or> (f i = f j \<and> i < j)) (sort_key f xs)"
    using Cons by simp
  moreover have "\<forall>y\<in>set (sort_key f xs). x < y"
    using Cons.prems by simp
  ultimately show ?case
    using insort_key_ranked[of f "sort_key f xs" x] by (simp add: sort_key_def)
qed

lemma argsort_ranked:
  "sorted_wrt (\<lambda>i j. a ! i < a ! j \<or> (a ! i = a ! j \<and> i < j)) (argsort a)"
  unfolding argsort_def by (rule sort_key_ranked) simp

lemma topk_indices_stable_order:
  assumes "p < q" "q < length (topk_indices argsort a k)"
    and "a ! (topk_indices argsort a k ! p) = a ! (topk_indices argsort a k ! q)"
  shows "topk_indices argsort a k ! q < topk_indices argsort a k ! p"
proof -
  obtain d where d: "topk_indices argsort a k = rev (drop d (argsort a))"
    using topk_indices_drop by blast
  have "sorted_wrt (\<lambda>i j. a ! i < a ! j \<or> (a ! i = a ! j \<and> i < j)) (drop d (argsort a))"
    using argsort_ranked by (rule sorted_wrt_drop)
  then have "sorted_wrt (\<lambda>j i. a ! i < a ! j \<or> (a ! i = a ! j \<and> i < j))
     (topk_indices argsort a k)"
    by (simp add: d sorted_wrt_rev)
  then have "a ! (topk_indices argsort a k ! q) < a ! (topk_indices argsort a k ! p) \<or>
    (a ! (topk_indices argsort a k ! q) = a ! (topk_indices argsort a k ! p) \<and>
     topk_indices argsort a k ! q < topk_indices argsort a k ! p)"
    using assms(1,2) by (simp add: sorted_wrt_iff_nth_less)
  with assms(3) show ?thesis by simp
qed

lemma topk_indices_stable_cut:
  assumes i: "i \<in> set (topk_indices argsort a k)"
    and j: "j < length a" "j \<notin> set (topk_indices argsort a k)"
    and e: "a ! j = a ! i"
  shows "j < i"
proof -
  obtain d where d: "topk_indices argsort a k = rev (drop d (argsort a))"
    using topk_indices_drop by blast
  have "j \<in> set (argsort a)"
    using valid_argsort_set[OF valid_argsort_argsort, of a] j(1) by simp
  then have "j \<in> set (take d (argsort a)) \<union> set (drop d (argsort a))"
    by (metis append_take_drop_id set_append)
  with j(2) d have jt: "j \<in> set (take d (argsort a))" by simp
  from i d have id: "i \<in> set (drop d (argsort a))" by simp
  have "sorted_wrt (\<lambda>i j. a ! i < a ! j \<or> (a ! i = a ! j \<and> i < j))
     (take d (argsort a) @ drop d (argsort a))"
    using argsort_ranked[of a] by simp
  then have "a ! j < a ! i \<or> (a ! j = a ! i \<and> j < i)"
    using jt id unfolding sorted_wrt_append by blast
  with e show ?thesis by simp
qed

subsection \<open>What the stage returns for a document\<close>

text \<open>
  In a list of distinct positions ordered by non-increasing value, over an array
  without negative values, a position with a non-zero value stands among the first
  as many as the array has non-zero values.
\<close>

lemma nonzero_prefix:
  fixes a :: "'a::{linorder,zero} list"
  assumes d: "distinct ix" and r: "\<forall>i\<in>set ix. i < length a"
    and s: "sorted (rev (map (\<lambda>i. a ! i) ix))"
    and nn: "\<forall>v\<in>set a. 0 \<le> v"
    and p: "p < length ix" and nz: "a ! (ix ! p) \<noteq> 0"
  shows "p < length (filter (\<lambda>v. v \<noteq> 0) a)"
proof -
  let ?S = "{i. i < length a \<and> a ! i \<noteq> 0}"
  have pos: "0 < a ! (ix ! p)"
    using nn r p nz by (metis nth_mem order_le_less)
  have le: "\<And>q. q \<le> p \<Longrightarrow> a ! (ix ! p) \<le> a ! (ix ! q)"
  proof -
    fix q assume q: "q \<le> p"
    have "map (\<lambda>i. a ! i) ix ! p \<le> map (\<lambda>i. a ! i) ix ! q"
      using s q p by (simp add: sorted_rev_iff_nth_mono)
    then show "a ! (ix ! p) \<le> a ! (ix ! q)"
      using q p by simp
  qed
  have sub: "(\<lambda>q. ix ! q) ` {0..p} \<subseteq> ?S"
  proof
    fix i assume "i \<in> (\<lambda>q. ix ! q) ` {0..p}"
    then obtain q where q: "q \<le> p" "i = ix ! q" by auto
    then have "i \<in> set ix" using p by simp
    moreover have "0 < a ! i" using le[OF q(1)] pos q(2) by simp
    ultimately show "i \<in> ?S" using r by auto
  qed
  have inj: "inj_on (\<lambda>q. ix ! q) {0..p}"
    using d p by (intro inj_on_nth) auto
  have "card {0..p} = card ((\<lambda>q. ix ! q) ` {0..p})"
    using inj by (simp add: card_image)
  also have "\<dots> \<le> card ?S"
    using sub by (intro card_mono) auto
  also have "\<dots> = length (filter (\<lambda>v. v \<noteq> 0) a)"
    by (simp add: length_filter_conv_card)
  finally show ?thesis by simp
qed

text \<open>
  Where the array has no more non-zero values than there are places, every position
  with a non-zero value is among the selected ones.
\<close>

lemma nonzero_selected:
  fixes a :: "'a::{linorder,zero} list"
  assumes d: "distinct ix" and r: "\<forall>i\<in>set ix. i < length a"
    and top: "\<forall>i\<in>set ix. \<forall>j. j < length a \<and> j \<notin> set ix \<longrightarrow> a ! j \<le> a ! i"
    and nn: "\<forall>v\<in>set a. 0 \<le> v"
    and len: "length ix = min m (length a)"
    and few: "length (filter (\<lambda>v. v \<noteq> 0) a) \<le> m"
    and j: "j < length a" "a ! j \<noteq> 0"
  shows "j \<in> set ix"
proof (rule ccontr)
  assume out: "j \<notin> set ix"
  let ?S = "{i. i < length a \<and> a ! i \<noteq> 0}"
  have pos: "0 < a ! j"
    using nn j by (metis nth_mem order_le_less)
  have "insert j (set ix) \<subseteq> ?S"
  proof
    fix i assume i: "i \<in> insert j (set ix)"
    show "i \<in> ?S"
    proof (cases "i = j")
      case True
      then show ?thesis using j by simp
    next
      case False
      with i have ii: "i \<in> set ix" by simp
      then have "a ! j \<le> a ! i" using top j(1) out by blast
      with pos have "a ! i \<noteq> 0" by auto
      then show ?thesis using r ii by simp
    qed
  qed
  then have "card (insert j (set ix)) \<le> card ?S"
    by (intro card_mono) auto
  moreover have "card (insert j (set ix)) = Suc (length ix)"
    using out d by (simp add: distinct_card)
  moreover have cs: "card ?S = length (filter (\<lambda>v. v \<noteq> 0) a)"
    by (simp add: length_filter_conv_card)
  ultimately have "Suc (length ix) \<le> min m (length a)"
    using few length_filter_le[of "\<lambda>v. v \<noteq> 0" a] by linarith
  with len show False by simp
qed

text \<open>
  The first places, as many as the array has non-zero values, hold non-zero values.
\<close>

lemma nonzero_first:
  fixes a :: "'a::{linorder,zero} list"
  assumes d: "distinct ix" and r: "\<forall>i\<in>set ix. i < length a"
    and top: "\<forall>i\<in>set ix. \<forall>j. j < length a \<and> j \<notin> set ix \<longrightarrow> a ! j \<le> a ! i"
    and s: "sorted (rev (map (\<lambda>i. a ! i) ix))"
    and nn: "\<forall>v\<in>set a. 0 \<le> v"
    and p: "p < length ix" "p < length (filter (\<lambda>v. v \<noteq> 0) a)"
  shows "a ! (ix ! p) \<noteq> 0"
proof
  assume z: "a ! (ix ! p) = 0"
  let ?S = "{i. i < length a \<and> a ! i \<noteq> 0}"
  have ip: "ix ! p \<in> set ix" using p(1) by simp
  have sub: "?S \<subseteq> (\<lambda>q. ix ! q) ` {..<p}"
  proof
    fix i assume "i \<in> ?S"
    then have i: "i < length a" "a ! i \<noteq> 0" by simp_all
    then have pos: "0 < a ! i"
      using nn by (metis nth_mem order_le_less)
    have "i \<in> set ix"
    proof (rule ccontr)
      assume "i \<notin> set ix"
      then have "a ! i \<le> a ! (ix ! p)" using top ip i(1) by blast
      with z pos show False by simp
    qed
    then obtain q where q: "q < length ix" "ix ! q = i"
      by (auto simp: in_set_conv_nth)
    have "q < p"
    proof (rule ccontr)
      assume "\<not> q < p"
      then have "p \<le> q" by simp
      then have "map (\<lambda>i. a ! i) ix ! q \<le> map (\<lambda>i. a ! i) ix ! p"
        using s q(1) by (simp add: sorted_rev_iff_nth_mono)
      then have "a ! i \<le> a ! (ix ! p)" using q p(1) by simp
      with z pos show False by simp
    qed
    with q(2) show "i \<in> (\<lambda>q. ix ! q) ` {..<p}" by auto
  qed
  have "card ?S \<le> card ((\<lambda>q. ix ! q) ` {..<p})"
    using sub by (intro card_mono) auto
  also have "\<dots> \<le> card {..<p}"
    by (rule card_image_le) simp
  finally have "card ?S \<le> p" by simp
  moreover have "card ?S = length (filter (\<lambda>v. v \<noteq> 0) a)"
    by (simp add: length_filter_conv_card)
  ultimately show False using p(2) by simp
qed

text \<open>
  C1 (as the code has it). The count of non-zero entries decides nothing. For
  \<^verbatim>\<open>nwords > 0\<close> the stage returns, for every document, the scores and the words at
  \<^verbatim>\<open>min(nwords, size)\<close> distinct positions of the vector, each word being the term
  of the vocabulary at the position of its score, in non-increasing order of score and
  with no position left out that scores higher than a returned one. A document with
  at most \<^verbatim>\<open>nwords\<close> non-zero entries has all of them returned; they stand first,
  and every place after them holds a word of score zero.
\<close>

theorem getTopKWords_pads:
  fixes x :: "'a::{linorder,zero} vector"
  assumes "valid_argsort (toArray x) (asort (toArray x))"
    and "vector_size x \<le> length vocab"
    and "list_all (\<lambda>v. 0 \<le> v) (toArray x)"
    and "0 < k"
  shows "\<exists>ix. getTopKWords asort vocab x k
             = Inr (map (\<lambda>i. toArray x ! i) ix, map (\<lambda>i. vocab ! i) ix) \<and>
           distinct ix \<and>
           list_all (\<lambda>i. i < vector_size x) ix \<and>
           length ix = min (nat k) (vector_size x) \<and>
           sorted (rev (map (\<lambda>i. toArray x ! i) ix)) \<and>
           (\<forall>i j. i \<in> set ix \<and> j < vector_size x \<and> j \<notin> set ix
              \<longrightarrow> toArray x ! j \<le> toArray x ! i) \<and>
           (\<forall>j. nonzero_entries x \<le> nat k \<and> j < vector_size x \<and> toArray x ! j \<noteq> 0
              \<longrightarrow> j \<in> set ix) \<and>
           (\<forall>p. p < length ix \<longrightarrow> (toArray x ! (ix ! p) \<noteq> 0) = (p < nonzero_entries x))"
proof -
  let ?a = "toArray x"
  let ?ix = "topk_indices asort ?a k"
  have res: "getTopKWords asort vocab x k = Inr (map (\<lambda>i. ?a ! i) ?ix, map (\<lambda>i. vocab ! i) ?ix)"
    using assms(1,2) by (rule getTopKWords_Inr)
  have len: "length ?ix = min (nat k) (length ?a)"
    using topk_indices_length[of ?a asort k] assms(1,4) by simp
  have d: "distinct ?ix"
    using topk_indices_distinct[of ?a asort k] assms(1) by simp
  have r: "\<forall>i\<in>set ?ix. i < length ?a"
    using topk_indices_range[of ?a asort _ k] assms(1) by blast
  have top: "\<forall>i\<in>set ?ix. \<forall>j. j < length ?a \<and> j \<notin> set ?ix \<longrightarrow> ?a ! j \<le> ?a ! i"
    using topk_indices_top[of ?a asort _ k] assms(1) by blast
  have s: "sorted (rev (map (\<lambda>i. ?a ! i) ?ix))"
    using topk_indices_sorted[of ?a asort k] assms(1) by simp
  have nn: "\<forall>v\<in>set ?a. 0 \<le> v"
    using assms(3) by (simp add: list_all_iff)
  have keep: "\<forall>j. nonzero_entries x \<le> nat k \<and> j < vector_size x \<and> ?a ! j \<noteq> 0 \<longrightarrow> j \<in> set ?ix"
    using nonzero_selected[OF d r top nn len] by (simp add: nonzero_entries_def length_toArray)
  have pad: "\<forall>p. p < length ?ix \<longrightarrow> (?a ! (?ix ! p) \<noteq> 0) = (p < nonzero_entries x)"
  proof (intro allI impI)
    fix p assume p: "p < length ?ix"
    show "(?a ! (?ix ! p) \<noteq> 0) = (p < nonzero_entries x)"
      using nonzero_prefix[OF d r s nn p] nonzero_first[OF d r top s nn p]
      by (auto simp: nonzero_entries_def)
  qed
  have r': "list_all (\<lambda>i. i < vector_size x) ?ix"
    using r by (simp add: list_all_iff length_toArray)
  have len': "length ?ix = min (nat k) (vector_size x)"
    using len by (simp add: length_toArray)
  have top': "\<forall>i j. i \<in> set ?ix \<and> j < vector_size x \<and> j \<notin> set ?ix \<longrightarrow> ?a ! j \<le> ?a ! i"
    using top by (simp add: length_toArray)
  show ?thesis
    using res d r' len' s top' keep pad by blast
qed

text \<open>
  A document with one non-zero entry and \<^verbatim>\<open>nwords = 2\<close> gets two pairs, the second
  with score zero.
\<close>

theorem getTopKWords_pads_counterexample:
  "nonzero_entries (SparseVector 2 [1] [2::real]) < nat 2 \<and>
   getTopKWords argsort [''cat'', ''dog''] (SparseVector 2 [1] [2::real]) 2
     = Inr ([2, 0], [''dog'', ''cat''])"
  by code_simp

theorem getTopKWords_pads_witness:
  "valid_argsort (toArray (SparseVector 3 [1] [5::real]))
     (argsort (toArray (SparseVector 3 [1] [5::real]))) \<and>
   vector_size (SparseVector 3 [1] [5::real]) \<le> length [''cat'', ''dog'', ''eel''] \<and>
   list_all (\<lambda>v. 0 \<le> v) (toArray (SparseVector 3 [1] [5::real])) \<and>
   (0::int) < 2 \<and>
   nonzero_entries (SparseVector 3 [1] [5::real]) = 1 \<and>
   getTopKWords argsort [''cat'', ''dog'', ''eel''] (SparseVector 3 [1] [5::real]) 2
     = Inr ([5, 0], [''dog'', ''eel'']) \<and>
   (\<exists>ix.
      getTopKWords argsort [''cat'', ''dog'', ''eel''] (SparseVector 3 [1] [5::real]) 2
        = Inr (map (\<lambda>i. toArray (SparseVector 3 [1] [5::real]) ! i) ix,
               map (\<lambda>i. [''cat'', ''dog'', ''eel''] ! i) ix) \<and>
      distinct ix \<and>
      length ix = min (nat 2) (vector_size (SparseVector 3 [1] [5::real])) \<and>
      (\<forall>p. p < length ix \<longrightarrow>
         (toArray (SparseVector 3 [1] [5::real]) ! (ix ! p) \<noteq> 0)
           = (p < nonzero_entries (SparseVector 3 [1] [5::real]))))"
proof -
  have h1: "valid_argsort (toArray (SparseVector 3 [1] [5::real]))
     (argsort (toArray (SparseVector 3 [1] [5::real])))"
    by (rule valid_argsort_argsort)
  have h2: "vector_size (SparseVector 3 [1] [5::real]) \<le> length [''cat'', ''dog'', ''eel'']"
    by simp
  have h3: "list_all (\<lambda>v. 0 \<le> v) (toArray (SparseVector 3 [1] [5::real]))"
    by code_simp
  have h4: "(0::int) < 2" by simp
  have h5: "nonzero_entries (SparseVector 3 [1] [5::real]) = 1"
    by code_simp
  have h6: "getTopKWords argsort [''cat'', ''dog'', ''eel''] (SparseVector 3 [1] [5::real]) 2
     = Inr ([5, 0], [''dog'', ''eel''])"
    by code_simp
  show ?thesis
    using h1 h2 h3 h4 h5 h6
      getTopKWords_pads [where x = "SparseVector 3 [1] [5::real]" and asort = argsort
        and vocab = "[''cat'', ''dog'', ''eel'']" and k = 2]
    by blast
qed

text \<open>
  C2 (as the code has it). For \<^verbatim>\<open>nwords > 0\<close> and any argsort that meets numpy's
  contract, the stage selects \<^verbatim>\<open>min(nwords, size)\<close> distinct positions of the
  vector, no position left out has a higher score than a selected one, and the
  selected positions are listed by non-increasing score. Equal scores are left as the
  reversed argsort has them: with the stable argsort, of two selected positions of
  equal score the higher one is listed first, and a position left out that ties with a
  selected one is lower than it.
\<close>

theorem topk_indices_selects_highest:
  fixes x :: "'a::{linorder,zero} vector"
  assumes "valid_argsort (toArray x) (asort (toArray x))" and "0 < k"
  shows
   "length (topk_indices asort (toArray x) k) = min (nat k) (vector_size x) \<and>
    distinct (topk_indices asort (toArray x) k) \<and>
    (\<forall>i\<in>set (topk_indices asort (toArray x) k). i < vector_size x) \<and>
    (\<forall>i j. i \<in> set (topk_indices asort (toArray x) k) \<and> j < vector_size x \<and>
        j \<notin> set (topk_indices asort (toArray x) k) \<longrightarrow> toArray x ! j \<le> toArray x ! i) \<and>
    (\<forall>p q. p < q \<and> q < length (topk_indices asort (toArray x) k) \<longrightarrow>
        toArray x ! (topk_indices asort (toArray x) k ! q)
          \<le> toArray x ! (topk_indices asort (toArray x) k ! p)) \<and>
    (\<forall>p q. p < q \<and> q < length (topk_indices argsort (toArray x) k) \<and>
        toArray x ! (topk_indices argsort (toArray x) k ! p)
          = toArray x ! (topk_indices argsort (toArray x) k ! q) \<longrightarrow>
        topk_indices argsort (toArray x) k ! q < topk_indices argsort (toArray x) k ! p) \<and>
    (\<forall>i j. i \<in> set (topk_indices argsort (toArray x) k) \<and> j < vector_size x \<and>
        j \<notin> set (topk_indices argsort (toArray x) k) \<and> toArray x ! j = toArray x ! i \<longrightarrow>
        j < i)"
proof -
  let ?a = "toArray x"
  let ?ix = "topk_indices asort ?a k"
  have 1: "length ?ix = min (nat k) (vector_size x)"
    using topk_indices_length[of ?a asort k] assms by (simp add: length_toArray)
  have 2: "distinct ?ix"
    using topk_indices_distinct[of ?a asort k] assms(1) by simp
  have 3: "\<forall>i\<in>set ?ix. i < vector_size x"
    using topk_indices_range[of ?a asort _ k] assms(1) by (simp add: length_toArray)
  have 4: "\<forall>i j. i \<in> set ?ix \<and> j < vector_size x \<and> j \<notin> set ?ix \<longrightarrow> ?a ! j \<le> ?a ! i"
    using topk_indices_top[of ?a asort _ k] assms(1) by (simp add: length_toArray)
  have s: "sorted (rev (map (\<lambda>i. ?a ! i) ?ix))"
    using topk_indices_sorted[of ?a asort k] assms(1) by simp
  have 5: "\<forall>p q. p < q \<and> q < length ?ix \<longrightarrow> ?a ! (?ix ! q) \<le> ?a ! (?ix ! p)"
  proof (intro allI impI)
    fix p q assume pq: "p < q \<and> q < length ?ix"
    then have "map (\<lambda>i. ?a ! i) ?ix ! q \<le> map (\<lambda>i. ?a ! i) ?ix ! p"
      using s by (simp add: sorted_rev_iff_nth_mono)
    with pq show "?a ! (?ix ! q) \<le> ?a ! (?ix ! p)" by simp
  qed
  have 6: "\<forall>p q. p < q \<and> q < length (topk_indices argsort ?a k) \<and>
        ?a ! (topk_indices argsort ?a k ! p) = ?a ! (topk_indices argsort ?a k ! q) \<longrightarrow>
        topk_indices argsort ?a k ! q < topk_indices argsort ?a k ! p"
    using topk_indices_stable_order[of _ _ ?a k] by blast
  have 7: "\<forall>i j. i \<in> set (topk_indices argsort ?a k) \<and> j < vector_size x \<and>
        j \<notin> set (topk_indices argsort ?a k) \<and> ?a ! j = ?a ! i \<longrightarrow> j < i"
    using topk_indices_stable_cut[of _ ?a k] by (simp add: length_toArray)
  show ?thesis
    using 1 2 3 4 5 6 7 by blast
qed

text \<open>
  Positions 0 and 1 hold the same score: with \<^verbatim>\<open>nwords = 1\<close> position 1 is
  selected, and with \<^verbatim>\<open>nwords = 2\<close> position 1 is listed before position 0.
\<close>

theorem topk_indices_tie_counterexample:
  "topk_indices argsort (toArray (DenseVector [1, 1::real])) 1 = [1] \<and>
   getTopKWords argsort [''cat'', ''dog''] (DenseVector [1, 1::real]) 1 = Inr ([1], [''dog'']) \<and>
   topk_indices argsort (toArray (DenseVector [1, 1::real])) 2 = [1, 0] \<and>
   getTopKWords argsort [''cat'', ''dog''] (DenseVector [1, 1::real]) 2
     = Inr ([1, 1], [''dog'', ''cat''])"
  by code_simp

theorem topk_indices_selects_highest_witness:
  "valid_argsort (toArray (DenseVector [3, 7, 7, 1::real]))
     (argsort (toArray (DenseVector [3, 7, 7, 1::real]))) \<and> (0::int) < 2 \<and>
   topk_indices argsort (toArray (DenseVector [3, 7, 7, 1::real])) 2 = [2, 1] \<and>
   length (topk_indices argsort (toArray (DenseVector [3, 7, 7, 1::real])) 2)
     = min (nat 2) (vector_size (DenseVector [3, 7, 7, 1::real]))"
proof -
  have h1: "valid_argsort (toArray (DenseVector [3, 7, 7, 1::real]))
     (argsort (toArray (DenseVector [3, 7, 7, 1::real])))"
    by (rule valid_argsort_argsort)
  have h2: "(0::int) < 2" by simp
  have h3: "topk_indices argsort (toArray (DenseVector [3, 7, 7, 1::real])) 2 = [2, 1]"
    by code_simp
  show ?thesis
    using h1 h2 h3
      topk_indices_selects_highest [where x = "DenseVector [3, 7, 7, 1::real]"
        and asort = argsort and k = 2]
    by blast
qed

text \<open>
  For \<^verbatim>\<open>nwords > 0\<close> and a vocabulary of distinct terms that covers the vector, the
  stage returns for every document the scores and words at \<^verbatim>\<open>min(nwords, size)\<close>
  distinct positions: the scores in non-increasing order, at most \<^verbatim>\<open>nwords\<close> of
  them, with as many words, no word twice.
\<close>

lemma getTopKWords_sorted_bounded_distinct:
  fixes x :: "'a::{linorder,zero} vector"
  assumes "valid_argsort (toArray x) (asort (toArray x))"
    and "vector_size x \<le> length vocab"
    and "distinct vocab"
    and "0 < k"
  shows "\<exists>ix. getTopKWords asort vocab x k
             = Inr (map (\<lambda>i. toArray x ! i) ix, map (\<lambda>i. vocab ! i) ix) \<and>
           distinct ix \<and>
           length ix = min (nat k) (vector_size x) \<and>
           int (length ix) \<le> k \<and>
           sorted (rev (map (\<lambda>i. toArray x ! i) ix)) \<and>
           distinct (map (\<lambda>i. vocab ! i) ix)"
proof -
  let ?a = "toArray x"
  let ?ix = "topk_indices asort ?a k"
  have res: "getTopKWords asort vocab x k = Inr (map (\<lambda>i. ?a ! i) ?ix, map (\<lambda>i. vocab ! i) ?ix)"
    using assms(1,2) by (rule getTopKWords_Inr)
  have s: "sorted (rev (map (\<lambda>i. ?a ! i) ?ix))"
    using topk_indices_sorted[of ?a asort k] assms(1) by simp
  have len: "length ?ix = min (nat k) (vector_size x)"
    using topk_indices_length[of ?a asort k] assms(1,4) by (simp add: length_toArray)
  then have le: "int (length ?ix) \<le> k"
    using assms(4) by simp
  have r: "\<forall>i\<in>set ?ix. i < length vocab"
    using topk_indices_range[of ?a asort _ k] assms(1,2) by (fastforce simp: length_toArray)
  have d: "distinct ?ix"
    using topk_indices_distinct[of ?a asort k] assms(1) by simp
  have "inj_on (\<lambda>i. vocab ! i) (set ?ix)"
    using assms(3) r by (rule inj_on_nth)
  with d have dw: "distinct (map (\<lambda>i. vocab ! i) ?ix)"
    by (simp add: distinct_map)
  show ?thesis
    using res d len le s dw by blast
qed

text \<open>
  C3. The result is to be sorted by non-increasing score, to hold at most
  \<^verbatim>\<open>nwords\<close> entries and no word twice. At \<^verbatim>\<open>nwords = 0\<close> the code does not keep
  the bound: the slice \<^verbatim>\<open>[-0:]\<close> is the whole array, so for a document with two
  entries the stage returns two words where at most zero were asked for.
\<close>

theorem getTopKWords_nwords_zero:
  "getTopKWords argsort [''cat'', ''dog''] (DenseVector [3, 4::real]) 0
     = Inr ([4, 3], [''dog'', ''cat'']) \<and>
   \<not> int (length [4, 3::real]) \<le> 0"
  by code_simp

subsection \<open>The positions of a vector and the vocabulary\<close>

text \<open>
  The vocabulary has at most \<^verbatim>\<open>vocabsize\<close> terms, all distinct, and the vectors of
  a document have its size.
\<close>

lemma length_vocabulary: "length (vocabulary vsize m docs) \<le> nat vsize"
  by (simp add: vocabulary_def)

lemma distinct_vocabulary: "distinct (vocabulary vsize m docs)"
  by (simp add: vocabulary_def)

lemma below_vocabulary:
  "i < length (vocabulary vsize m docs) \<Longrightarrow> int i < vsize"
  using length_vocabulary[of vsize m docs] by linarith

lemma vector_size_count_vector: "vector_size (count_vector vocab d) = length vocab"
  by (simp add: count_vector_def Let_def)

lemma vector_indices_count_vector:
  "i \<in> set (vector_indices (count_vector vocab d)) \<Longrightarrow> i < length vocab"
  by (simp add: count_vector_def Let_def)

lemma vector_size_tfidf_vector: "vector_size (tfidf_vector docs vocab tf) = length vocab"
  by (simp add: tfidf_vector_def)

text \<open>
  C7. For every document of any corpus, with the vocabulary fitted for
  \<^verbatim>\<open>args.vocabsize\<close> and \<^verbatim>\<open>args.mindf\<close>: every position stored in the
  document's vector of counts and in its vector of weights is a position of the
  vocabulary and lies below \<^verbatim>\<open>vocabsize\<close>; so does every position the stage
  selects, for any \<^verbatim>\<open>nwords\<close>; the lookup \<^verbatim>\<open>vocab[i]\<close> is in bounds at each
  of them, and \<^verbatim>\<open>getTopKWords\<close> returns the scores and words at these positions,
  no error.
\<close>

theorem termvector_indices_in_vocabulary:
  assumes "valid_argsort (toArray (tfidf_column a docs d)) (asort (toArray (tfidf_column a docs d)))"
  shows
   "length (fitted_vocab a docs) \<le> nat (vocabsize a) \<and>
    vector_size (tf_column a docs d) = length (fitted_vocab a docs) \<and>
    vector_size (tfidf_column a docs d) = length (fitted_vocab a docs) \<and>
    list_all (\<lambda>i. i < length (fitted_vocab a docs) \<and> int i < vocabsize a)
      (vector_indices (tf_column a docs d)) \<and>
    list_all (\<lambda>i. i < length (fitted_vocab a docs) \<and> int i < vocabsize a)
      (vector_indices (tfidf_column a docs d)) \<and>
    list_all (\<lambda>i. i < length (fitted_vocab a docs) \<and> int i < vocabsize a)
      (topk_indices asort (toArray (tfidf_column a docs d)) k) \<and>
    take_at (fitted_vocab a docs) (topk_indices asort (toArray (tfidf_column a docs d)) k)
      = Inr (map (\<lambda>i. fitted_vocab a docs ! i)
          (topk_indices asort (toArray (tfidf_column a docs d)) k)) \<and>
    getTopKWords asort (fitted_vocab a docs) (tfidf_column a docs d) k
      = Inr (map (\<lambda>i. toArray (tfidf_column a docs d) ! i)
               (topk_indices asort (toArray (tfidf_column a docs d)) k),
             map (\<lambda>i. fitted_vocab a docs ! i)
               (topk_indices asort (toArray (tfidf_column a docs d)) k))"
proof -
  let ?V = "fitted_vocab a docs"
  let ?x = "tfidf_column a docs d"
  let ?ix = "topk_indices asort (toArray ?x) k"
  have 1: "length ?V \<le> nat (vocabsize a)"
    by (simp add: fitted_vocab_def length_vocabulary)
  have b: "\<And>i. i < length ?V \<Longrightarrow> int i < vocabsize a"
    unfolding fitted_vocab_def by (rule below_vocabulary)
  have 2: "vector_size (tf_column a docs d) = length ?V"
    by (simp add: tf_column_def vector_size_count_vector)
  have 3: "vector_size ?x = length ?V"
    by (simp add: tfidf_column_def vector_size_tfidf_vector)
  have 4: "list_all (\<lambda>i. i < length ?V \<and> int i < vocabsize a) (vector_indices (tf_column a docs d))"
    unfolding list_all_iff tf_column_def
    using vector_indices_count_vector[of _ ?V d] b by blast
  have 5: "list_all (\<lambda>i. i < length ?V \<and> int i < vocabsize a) (vector_indices ?x)"
    unfolding list_all_iff using b by (simp add: tfidf_column_def tfidf_vector_def)
  have r: "\<And>i. i \<in> set ?ix \<Longrightarrow> i < length ?V"
    using topk_indices_range[of "toArray ?x" asort _ k] assms 3 by (simp add: length_toArray)
  have 6: "list_all (\<lambda>i. i < length ?V \<and> int i < vocabsize a) ?ix"
    unfolding list_all_iff using r b by blast
  have 7: "take_at ?V ?ix = Inr (map (\<lambda>i. ?V ! i) ?ix)"
    using r by (rule take_at_Inr)
  have 8: "getTopKWords asort ?V ?x k
      = Inr (map (\<lambda>i. toArray ?x ! i) ?ix, map (\<lambda>i. ?V ! i) ?ix)"
    using assms 3 by (intro getTopKWords_Inr) simp_all
  show ?thesis
    using 1 2 3 4 5 6 7 8 by blast
qed


theorem termvector_indices_in_vocabulary_witness:
  "valid_argsort
     (toArray (tfidf_column
        (parse_args (no_options\<lparr>opt_vocabsize := Some 2\<rparr>))
        [ [''cat'', ''dog''], [''cat''], [''emu'']] [''cat'', ''dog'']))
     (argsort (toArray (tfidf_column
        (parse_args (no_options\<lparr>opt_vocabsize := Some 2\<rparr>))
        [ [''cat'', ''dog''], [''cat''], [''emu'']] [''cat'', ''dog'']))) \<and>
   vocabsize (parse_args (no_options\<lparr>opt_vocabsize := Some 2\<rparr>)) = 2 \<and>
   (fitted_vocab
        (parse_args (no_options\<lparr>opt_vocabsize := Some 2\<rparr>))
        [ [''cat'', ''dog''], [''cat''], [''emu'']]) = [''cat'', ''dog''] \<and>
   vector_indices (tf_column
        (parse_args (no_options\<lparr>opt_vocabsize := Some 2\<rparr>))
        [ [''cat'', ''dog''], [''cat''], [''emu'']] [''cat'', ''dog'']) = [0, 1] \<and>
   list_all
     (\<lambda>i. i < length (fitted_vocab
        (parse_args (no_options\<lparr>opt_vocabsize := Some 2\<rparr>))
        [ [''cat'', ''dog''], [''cat''], [''emu'']]) \<and>
          int i < vocabsize (parse_args (no_options\<lparr>opt_vocabsize := Some 2\<rparr>)))
     (topk_indices argsort (toArray (tfidf_column
        (parse_args (no_options\<lparr>opt_vocabsize := Some 2\<rparr>))
        [ [''cat'', ''dog''], [''cat''], [''emu'']] [''cat'', ''dog''])) 1) \<and>
   getTopKWords argsort (fitted_vocab
        (parse_args (no_options\<lparr>opt_vocabsize := Some 2\<rparr>))
        [ [''cat'', ''dog''], [''cat''], [''emu'']])
       (tfidf_column
        (parse_args (no_options\<lparr>opt_vocabsize := Some 2\<rparr>))
        [ [''cat'', ''dog''], [''cat''], [''emu'']] [''cat'', ''dog'']) 1
     = Inr (map (\<lambda>i. toArray (tfidf_column
        (parse_args (no_options\<lparr>opt_vocabsize := Some 2\<rparr>))
        [ [''cat'', ''dog''], [''cat''], [''emu'']] [''cat'', ''dog'']) ! i)
              (topk_indices argsort (toArray (tfidf_column
        (parse_args (no_options\<lparr>opt_vocabsize := Some 2\<rparr>))
        [ [''cat'', ''dog''], [''cat''], [''emu'']] [''cat'', ''dog''])) 1),
            map (\<lambda>i. (fitted_vocab
        (parse_args (no_options\<lparr>opt_vocabsize := Some 2\<rparr>))
        [ [''cat'', ''dog''], [''cat''], [''emu'']]) ! i)
              (topk_indices argsort (toArray (tfidf_column
        (parse_args (no_options\<lparr>opt_vocabsize := Some 2\<rparr>))
        [ [''cat'', ''dog''], [''cat''], [''emu'']] [''cat'', ''dog''])) 1))"
proof -
  have h1: "valid_argsort
     (toArray (tfidf_column
        (parse_args (no_options\<lparr>opt_vocabsize := Some 2\<rparr>))
        [ [''cat'', ''dog''], [''cat''], [''emu'']] [''cat'', ''dog'']))
     (argsort (toArray (tfidf_column
        (parse_args (no_options\<lparr>opt_vocabsize := Some 2\<rparr>))
        [ [''cat'', ''dog''], [''cat''], [''emu'']] [''cat'', ''dog''])))"
    by (rule valid_argsort_argsort)
  have h2: "vocabsize (parse_args (no_options\<lparr>opt_vocabsize := Some 2\<rparr>)) = 2"
    by (simp add: parse_args_def no_options_def or_default_def)
  have h3: "(fitted_vocab
        (parse_args (no_options\<lparr>opt_vocabsize := Some 2\<rparr>))
        [ [''cat'', ''dog''], [''cat''], [''emu'']]) = [''cat'', ''dog'']"
    by code_simp
  have h4: "vector_indices (tf_column
        (parse_args (no_options\<lparr>opt_vocabsize := Some 2\<rparr>))
        [ [''cat'', ''dog''], [''cat''], [''emu'']] [''cat'', ''dog'']) = [0, 1]"
    by code_simp
  show ?thesis
    using h1 h2 h3 h4
      termvector_indices_in_vocabulary [where a = "parse_args (no_options\<lparr>opt_vocabsize := Some 2\<rparr>)"
        and docs = "[ [''cat'', ''dog''], [''cat''], [''emu'']]" and d = "[''cat'', ''dog'']" and asort = argsort and k = 1]
    by blast
qed

subsection \<open>The stage over a dataframe\<close>

text \<open>
  When \<^verbatim>\<open>transform\<close> returns, the column \<^verbatim>\<open>top_words\<close> holds, row by row, what
  \<^verbatim>\<open>getTopKWords\<close> returns with \<^verbatim>\<open>k = self.nwords\<close> for the vector of that row in
  the column \<^verbatim>\<open>tfidf\<close>.
\<close>

lemma map_rows_Inr:
  "map_rows f cs = Inr vs \<Longrightarrow>
     length vs = length cs \<and> (\<forall>i<length cs. f (cs ! i) = Inr (vs ! i))"
proof (induction cs arbitrary: vs)
  case Nil
  then show ?case by simp
next
  case (Cons c cs)
  from Cons.prems obtain v vs' where v: "f c = Inr v" "map_rows f cs = Inr vs'" "vs = v # vs'"
    by (auto split: sum.splits)
  from Cons.IH[OF v(2)] have ih: "length vs' = length cs" "\<forall>i<length cs. f (cs ! i) = Inr (vs' ! i)"
    by simp_all
  show ?case
    using v ih by (auto simp: nth_Cons split: nat.splits)
qed

lemma transform_top_words:
  assumes "transform asort vocab self df = Inr df'"
  shows "\<exists>c tw. map_of df ''tfidf'' = Some c \<and> map_of df' ''top_words'' = Some tw \<and>
           length tw = length c \<and>
           (\<forall>i<length c. topkwords_udf asort vocab self (c ! i) = Inr (tw ! i))"
proof -
  from assms obtain c tw where c: "map_of df ''tfidf'' = Some c"
    and tw: "map_rows (topkwords_udf asort vocab self) c = Inr tw"
    and df': "df' = withColumn ''top_words'' tw df"
    by (auto simp: transform_def split: option.splits sum.splits)
  have "map_of df' ''top_words'' = Some tw"
    by (simp add: df' withColumn_def update_conv')
  then show ?thesis
    using c map_rows_Inr[OF tw] by blast
qed

lemma topkwords_udf_Vec:
  "topkwords_udf asort vocab self (Vec x) = Inr r \<Longrightarrow>
     \<exists>scores ws. getTopKWords asort vocab x (self_nwords self) = Inr (scores, ws) \<and>
       r = TopWords scores ws"
  by (auto simp: topkwords_udf_def split: sum.splits)

subsection \<open>Construction of the stage\<close>

text \<open>
  C4 (as the code has it). The stage is constructed for every integer \<^verbatim>\<open>nwords\<close>,
  also zero and the negative ones: the value is stored as it is, and the data pass
  raises no error for it either.
\<close>

theorem topkwords_accepts_any_nwords:
  fixes x :: "'a::{linorder,zero} vector"
  shows "topkwords (parse_args (c\<lparr>opt_nwords := Some n\<rparr>))
     = Inr \<lparr> self_inputCol = Some ''tfidf'', self_outputCol = Some ''top_words'',
             self_key = None, self_val = None, self_nwords = n \<rparr> \<and>
   (valid_argsort (toArray x) (asort (toArray x)) \<and> vector_size x \<le> length vocab \<longrightarrow>
      (\<exists>scores ws. getTopKWords asort vocab x n = Inr (scores, ws)))"
  using getTopKWords_Inr[of x asort vocab n]
  by (simp add: topkwords_def TopKWords_init_def parse_args_def or_default_def)

text \<open>
  With \<^verbatim>\<open>--nwords 0\<close> and with \<^verbatim>\<open>--nwords -3\<close> the construction returns the
  stage, and the stage then processes a document.
\<close>

theorem topkwords_accepts_any_nwords_counterexample:
  "topkwords (parse_args (no_options\<lparr>opt_nwords := Some 0\<rparr>))
     = Inr \<lparr> self_inputCol = Some ''tfidf'', self_outputCol = Some ''top_words'',
             self_key = None, self_val = None, self_nwords = 0 \<rparr> \<and>
   topkwords (parse_args (no_options\<lparr>opt_nwords := Some (- 3)\<rparr>))
     = Inr \<lparr> self_inputCol = Some ''tfidf'', self_outputCol = Some ''top_words'',
             self_key = None, self_val = None, self_nwords = - 3 \<rparr> \<and>
   getTopKWords argsort [''cat'', ''dog'', ''eel''] (DenseVector [3, 9, 4::real]) (- 2)
     = Inr ([9], [''dog''])"
  by code_simp

theorem topkwords_accepts_any_nwords_witness:
  "topkwords (parse_args (no_options\<lparr>opt_nwords := Some (- 1)\<rparr>))
     = Inr \<lparr> self_inputCol = Some ''tfidf'', self_outputCol = Some ''top_words'',
             self_key = None, self_val = None, self_nwords = - 1 \<rparr> \<and>
   valid_argsort (toArray (DenseVector [3, 9, 4::real]))
     (argsort (toArray (DenseVector [3, 9, 4::real]))) \<and>
   vector_size (DenseVector [3, 9, 4::real]) \<le> length [''cat'', ''dog'', ''eel''] \<and>
   (\<exists>scores ws. getTopKWords argsort [''cat'', ''dog'', ''eel'']
       (DenseVector [3, 9, 4::real]) (- 1) = Inr (scores, ws))"
proof -
  have h1: "valid_argsort (toArray (DenseVector [3, 9, 4::real]))
     (argsort (toArray (DenseVector [3, 9, 4::real])))"
    by (rule valid_argsort_argsort)
  have h2: "vector_size (DenseVector [3, 9, 4::real]) \<le> length [''cat'', ''dog'', ''eel'']"
    by simp
  show ?thesis
    using h1 h2
      topkwords_accepts_any_nwords [where c = no_options and n = "- 1"
        and x = "DenseVector [3, 9, 4::real]" and asort = argsort
        and vocab = "[''cat'', ''dog'', ''eel'']"]
    by blast
qed

subsection \<open>Command-line defaults\<close>

text \<open>
  C5. An option that is not on the command line has its default: \<^verbatim>\<open>minlength\<close>
  50000, \<^verbatim>\<open>nwords\<close> 10, \<^verbatim>\<open>nsubreddits\<close> 10, \<^verbatim>\<open>mindf\<close> 1.0 and
  \<^verbatim>\<open>vocabsize\<close> 20000, each whatever the other options are.
\<close>

theorem parse_args_defaults:
  "(opt_minlength c = None \<longrightarrow> minlength (parse_args c) = 50000) \<and>
   (opt_nwords c = None \<longrightarrow> nwords (parse_args c) = 10) \<and>
   (opt_nsubreddits c = None \<longrightarrow> nsubreddits (parse_args c) = 10) \<and>
   (opt_mindf c = None \<longrightarrow> mindf (parse_args c) = 1.0) \<and>
   (opt_vocabsize c = None \<longrightarrow> vocabsize (parse_args c) = 20000)"
  by (simp add: parse_args_def or_default_def)

theorem parse_args_defaults_witness:
  "opt_minlength no_options = None \<and> opt_nwords no_options = None \<and>
   opt_nsubreddits no_options = None \<and> opt_mindf no_options = None \<and>
   opt_vocabsize no_options = None \<and>
   minlength (parse_args no_options) = 50000 \<and> nwords (parse_args no_options) = 10 \<and>
   nsubreddits (parse_args no_options) = 10 \<and> mindf (parse_args no_options) = 1.0 \<and>
   vocabsize (parse_args no_options) = 20000"
  using parse_args_defaults [of no_options] by (simp add: no_options_def)

subsection \<open>The written table\<close>

lemma map_of_drop_columns:
  "name \<notin> set names \<Longrightarrow> map_of (drop_columns names df) name = map_of df name"
  by (induction df) (auto simp: drop_columns_def)

text \<open>
  C10. The written dataframe has the columns of the transformed one, in their order,
  without \<^verbatim>\<open>body\<close>, \<^verbatim>\<open>cleaned\<close>, \<^verbatim>\<open>tf\<close>, \<^verbatim>\<open>tokens\<close>,
  \<^verbatim>\<open>swr_tokens\<close> and \<^verbatim>\<open>norm\<close>; every column of another name is there with
  its cells unchanged, among them \<^verbatim>\<open>tfidf\<close>, \<^verbatim>\<open>top_words\<close> and
  \<^verbatim>\<open>top_subreddits\<close>.
\<close>

theorem output_df_columns:
  "map fst (output_df df)
     = filter (\<lambda>name. name \<notin> {''body'', ''cleaned'', ''tf'', ''tokens'', ''swr_tokens'', ''norm''})
         (map fst df) \<and>
   (\<forall>name. name \<notin> {''body'', ''cleaned'', ''tf'', ''tokens'', ''swr_tokens'', ''norm''} \<longrightarrow>
      filter (\<lambda>(m, c). m = name) (output_df df) = filter (\<lambda>(m, c). m = name) df) \<and>
   map_of (output_df df) ''tfidf'' = map_of df ''tfidf'' \<and>
   map_of (output_df df) ''top_words'' = map_of df ''top_words'' \<and>
   map_of (output_df df) ''top_subreddits'' = map_of df ''top_subreddits''"
proof -
  have 1: "map fst (output_df df)
     = filter (\<lambda>name. name \<notin> {''body'', ''cleaned'', ''tf'', ''tokens'', ''swr_tokens'', ''norm''})
         (map fst df)"
    by (induction df) (auto simp: output_df_def drop_columns_def dropped_columns_def)
  have 2: "\<forall>name. name \<notin> {''body'', ''cleaned'', ''tf'', ''tokens'', ''swr_tokens'', ''norm''} \<longrightarrow>
      filter (\<lambda>(m, c). m = name) (output_df df) = filter (\<lambda>(m, c). m = name) df"
    by (induction df) (auto simp: output_df_def drop_columns_def dropped_columns_def)
  have 3: "map_of (output_df df) ''tfidf'' = map_of df ''tfidf''"
    unfolding output_df_def by (rule map_of_drop_columns) (simp add: dropped_columns_def)
  have 4: "map_of (output_df df) ''top_words'' = map_of df ''top_words''"
    unfolding output_df_def by (rule map_of_drop_columns) (simp add: dropped_columns_def)
  have 5: "map_of (output_df df) ''top_subreddits'' = map_of df ''top_subreddits''"
    unfolding output_df_def by (rule map_of_drop_columns) (simp add: dropped_columns_def)
  show ?thesis using 1 2 3 4 5 by blast
qed


theorem output_df_columns_witness:
  "''tfidf'' \<notin> {''body'', ''cleaned'', ''tf'', ''tokens'', ''swr_tokens'', ''norm''} \<and>
   map fst (output_df
     [(''subreddit'', [Text ''aww'']), (''body'', [Text ''so cute'']),
      (''tfidf'', [Vec (DenseVector [0, 2::real])]), (''norm'', [Num 2]),
      (''top_words'', [TopWords [2] [''cute'']])])
     = [''subreddit'', ''tfidf'', ''top_words''] \<and>
   filter (\<lambda>(m, c). m = ''tfidf'') (output_df
     [(''subreddit'', [Text ''aww'']), (''body'', [Text ''so cute'']),
      (''tfidf'', [Vec (DenseVector [0, 2::real])]), (''norm'', [Num 2]),
      (''top_words'', [TopWords [2] [''cute'']])])
     = [(''tfidf'', [Vec (DenseVector [0, 2::real])])] \<and>
   map_of (output_df
     [(''subreddit'', [Text ''aww'']), (''body'', [Text ''so cute'']),
      (''tfidf'', [Vec (DenseVector [0, 2::real])]), (''norm'', [Num 2]),
      (''top_words'', [TopWords [2] [''cute'']])]) ''top_words''
     = Some [TopWords [2] [''cute'']]"
proof -
  have h0: "''tfidf'' \<notin> {''body'', ''cleaned'', ''tf'', ''tokens'', ''swr_tokens'', ''norm''}"
    by simp
  have h1: "filter (\<lambda>name. name \<notin> {''body'', ''cleaned'', ''tf'', ''tokens'', ''swr_tokens'', ''norm''})
     (map fst
     [(''subreddit'', [Text ''aww'']), (''body'', [Text ''so cute'']),
      (''tfidf'', [Vec (DenseVector [0, 2::real])]), (''norm'', [Num 2]),
      (''top_words'', [TopWords [2] [''cute'']])])
     = [''subreddit'', ''tfidf'', ''top_words'']"
    by simp
  have h2: "filter (\<lambda>(m, c). m = ''tfidf'')
     [(''subreddit'', [Text ''aww'']), (''body'', [Text ''so cute'']),
      (''tfidf'', [Vec (DenseVector [0, 2::real])]), (''norm'', [Num 2]),
      (''top_words'', [TopWords [2] [''cute'']])]
     = [(''tfidf'', [Vec (DenseVector [0, 2::real])])]"
    by simp
  have h3: "map_of
     [(''subreddit'', [Text ''aww'']), (''body'', [Text ''so cute'']),
      (''tfidf'', [Vec (DenseVector [0, 2::real])]), (''norm'', [Num 2]),
      (''top_words'', [TopWords [2] [''cute'']])] ''top_words''
     = Some [TopWords [2] [''cute'']]"
    by simp
  show ?thesis
    using h0 h1 h2 h3 output_df_columns [of
     "[(''subreddit'', [Text ''aww'']), (''body'', [Text ''so cute'']),
      (''tfidf'', [Vec (DenseVector [0, 2::real])]), (''norm'', [Num 2]),
      (''top_words'', [TopWords [2] [''cute'']])]"]
    by metis
qed

text \<open>
  A path whose last component is an ordinary name keeps it through
  \<^verbatim>\<open>normpath\<close>: the loop appends that component last, and the joined path ends
  with it after a slash.
\<close>

lemma split_sep_not_Nil: "split_sep c s \<noteq> []"
  by (induction s) (auto split: list.splits)

lemma split_sep_append:
  "split_sep c (xs @ c # ys) = split_sep c xs @ split_sep c ys"
proof (induction xs)
  case Nil
  then show ?case by simp
next
  case (Cons x xs)
  obtain w ws where w: "split_sep c xs = w # ws"
    using split_sep_not_Nil[of c xs] by (cases "split_sep c xs") auto
  show ?case
    using Cons w by simp
qed

lemma split_sep_no_sep: "c \<notin> set s \<Longrightarrow> split_sep c s = [s]"
  by (induction s) auto

lemma norm_comps_last:
  "n \<noteq> [] \<Longrightarrow> n \<noteq> ''.'' \<Longrightarrow> n \<noteq> ''..'' \<Longrightarrow>
     norm_comps ini acc (cs @ [n]) = norm_comps ini acc cs @ [n]"
  by (induction ini acc cs rule: norm_comps.induct) auto

lemma join_sep_snoc:
  "join_sep c (xs @ [n]) = (if xs = [] then n else join_sep c xs @ c # n)"
  by (induction c xs rule: join_sep.induct) auto

lemma basename_after_slash:
  assumes "CHR ''/'' \<notin> set n" and "pre = [] \<or> last pre = CHR ''/''"
  shows "basename (pre @ n) = n"
proof -
  have tw: "takeWhile (\<lambda>c. c \<noteq> CHR ''/'') (rev n) = rev n"
    using assms(1) by auto
  show ?thesis
  proof (cases "pre = []")
    case True
    then show ?thesis by (simp add: basename_def tw)
  next
    case False
    with assms(2) obtain pre' where "pre = pre' @ [CHR ''/'']"
      by (metis append_butlast_last_id)
    then have "rev (pre @ n) = rev n @ CHR ''/'' # rev pre'" by simp
    then have "takeWhile (\<lambda>c. c \<noteq> CHR ''/'') (rev (pre @ n)) = rev n"
      using tw by (simp add: takeWhile_tail)
    then show ?thesis by (simp add: basename_def)
  qed
qed

lemma basename_normpath_name:
  assumes n: "CHR ''/'' \<notin> set n" "n \<noteq> []" "n \<noteq> ''.''" "n \<noteq> ''..''"
  shows "basename (normpath (d @ CHR ''/'' # n)) = n"
proof -
  let ?path = "d @ CHR ''/'' # n"
  define ini :: nat where "ini =
     (if startswith ?path ''/''
      then (if startswith ?path ''//'' \<and> \<not> startswith ?path ''///'' then 2 else 1)
      else 0)"
  define cs where "cs = norm_comps ini [] (split_sep CHR ''/'' d)"
  have comps: "norm_comps ini [] (split_sep CHR ''/'' ?path) = cs @ [n]"
    using n by (simp add: split_sep_append split_sep_no_sep norm_comps_last cs_def)
  define pre where "pre = replicate ini CHR ''/'' @ (if cs = [] then [] else join_sep CHR ''/'' cs @ [CHR ''/''])"
  have np: "normpath ?path = pre @ n"
    using n(2) unfolding normpath_def Let_def ini_def[symmetric] comps
    by (auto simp: join_sep_snoc pre_def)
  have "pre = [] \<or> last pre = CHR ''/''"
    by (cases ini) (auto simp: pre_def)
  then show ?thesis
    unfolding np using n(1) by (intro basename_after_slash) auto
qed

lemma basename_normpath_plain:
  assumes n: "CHR ''/'' \<notin> set n" "n \<noteq> []" "n \<noteq> ''.''" "n \<noteq> ''..''"
  shows "normpath n = n"
proof -
  obtain c cs where c: "n = c # cs" "c \<noteq> CHR ''/''"
    using n(1,2) by (cases n) auto
  have "\<not> startswith n ''/''"
    using c by (simp add: startswith_def)
  then show ?thesis
    using n by (simp add: normpath_def Let_def split_sep_no_sep)
qed

lemma translate_trans_table:
  "translate trans_table s = filter (\<lambda>c. c \<noteq> CHR ''-'' \<and> c \<noteq> CHR ''_'') s"
  by (induction s) (simp_all add: translate_def trans_table_def maketrans_def)

text \<open>
  For a path whose last component is an ordinary name, \<^verbatim>\<open>normpath\<close> does not
  change the basename.
\<close>

lemma basename_normpath:
  assumes "basename p \<noteq> []" "basename p \<noteq> ''.''" "basename p \<noteq> ''..''"
  shows "basename (normpath p) = basename p"
proof (cases "CHR ''/'' \<in> set p")
  case False
  then have b: "basename p = p"
    using basename_after_slash[of p "[]"] by simp
  with assms False have "normpath p = p"
    by (intro basename_normpath_plain) simp_all
  then show ?thesis by simp
next
  case True
  then obtain d n where p: "p = d @ CHR ''/'' # n" and n: "CHR ''/'' \<notin> set n"
    by (meson split_list_last)
  have b: "basename p = n"
    using basename_after_slash[of n "d @ [CHR ''/'']"] n by (simp add: p)
  with assms n have "basename (normpath (d @ CHR ''/'' # n)) = n"
    by (intro basename_normpath_name) simp_all
  with b p show ?thesis by simp
qed

text \<open>
  C9. Line 88 reads the file \<^verbatim>\<open>filepath + '.txt'\<close>, so the path of a run names a
  file by its last component, which is then not empty, \<^verbatim>\<open>.\<close> or \<^verbatim>\<open>..\<close>. For
  every such path the name of the output table is the basename of the path with every
  \<^verbatim>\<open>-\<close> and \<^verbatim>\<open>_\<close> deleted, and two such paths whose basenames differ only in
  these characters write to the same table. (For every path whatever, the name is
  taken from the basename of the normalised path.)
\<close>

theorem table_name_deletes:
  "(basename p \<noteq> [] \<and> basename p \<noteq> ''.'' \<and> basename p \<noteq> ''..'' \<longrightarrow>
      table_name p = filter (\<lambda>c. c \<noteq> CHR ''-'' \<and> c \<noteq> CHR ''_'') (basename p)) \<and>
   (basename p \<noteq> [] \<and> basename p \<noteq> ''.'' \<and> basename p \<noteq> ''..'' \<and>
    basename q \<noteq> [] \<and> basename q \<noteq> ''.'' \<and> basename q \<noteq> ''..'' \<and>
    filter (\<lambda>c. c \<noteq> CHR ''-'' \<and> c \<noteq> CHR ''_'') (basename p)
      = filter (\<lambda>c. c \<noteq> CHR ''-'' \<and> c \<noteq> CHR ''_'') (basename q)
    \<longrightarrow> table_name p = table_name q) \<and>
   table_name p = filter (\<lambda>c. c \<noteq> CHR ''-'' \<and> c \<noteq> CHR ''_'') (basename (normpath p))"
  by (simp add: table_name_def translate_trans_table basename_normpath)

theorem table_name_deletes_witness:
  "''data/RC_2015-01'' \<noteq> ''data/RC-2015_01'' \<and>
   basename ''data/RC_2015-01'' = ''RC_2015-01'' \<and>
   basename ''data/RC-2015_01'' = ''RC-2015_01'' \<and>
   filter (\<lambda>c. c \<noteq> CHR ''-'' \<and> c \<noteq> CHR ''_'') (basename ''data/RC_2015-01'')
      = filter (\<lambda>c. c \<noteq> CHR ''-'' \<and> c \<noteq> CHR ''_'') (basename ''data/RC-2015_01'') \<and>
   table_name ''data/RC_2015-01'' = ''RC201501'' \<and>
   table_name ''data/RC_2015-01''
      = filter (\<lambda>c. c \<noteq> CHR ''-'' \<and> c \<noteq> CHR ''_'') (basename ''data/RC_2015-01'') \<and>
   table_name ''data/RC_2015-01'' = table_name ''data/RC-2015_01''"
proof -
  have h1: "''data/RC_2015-01'' \<noteq> ''data/RC-2015_01''" by simp
  have h2: "basename ''data/RC_2015-01'' = ''RC_2015-01''" by code_simp
  have h3: "basename ''data/RC-2015_01'' = ''RC-2015_01''" by code_simp
  have h4: "filter (\<lambda>c. c \<noteq> CHR ''-'' \<and> c \<noteq> CHR ''_'') (basename ''data/RC_2015-01'')
      = filter (\<lambda>c. c \<noteq> CHR ''-'' \<and> c \<noteq> CHR ''_'') (basename ''data/RC-2015_01'')"
    by code_simp
  have h5: "table_name ''data/RC_2015-01'' = ''RC201501''" by code_simp
  have n1: "basename ''data/RC_2015-01'' \<noteq> [] \<and> basename ''data/RC_2015-01'' \<noteq> ''.'' \<and>
    basename ''data/RC_2015-01'' \<noteq> ''..''"
    by (simp add: h2)
  have n2: "basename ''data/RC-2015_01'' \<noteq> [] \<and> basename ''data/RC-2015_01'' \<noteq> ''.'' \<and>
    basename ''data/RC-2015_01'' \<noteq> ''..''"
    by (simp add: h3)
  show ?thesis
    using h1 h2 h3 h4 h5 n1 n2
      table_name_deletes [of "''data/RC_2015-01''" "''data/RC-2015_01''"]
    by metis
qed

text \<open>
  C8. When Spark's parser rejects the table name, line 117 raises and nothing is
  written. Otherwise the write succeeds whether or not the table exists, and
  afterwards the destination holds the records of this run and nothing else, the other
  tables being as they were; and after an earlier run to the same destination, from
  whatever path and dataframe, this run leaves only its own records there.
\<close>

theorem save_results_overwrites:
  "(resolve (table_name path) = None \<longrightarrow>
      save_results resolve path df cat = Inl ParseException) \<and>
   (resolve (table_name path) = Some t \<longrightarrow>
      save_results resolve path df cat = Inr (cat(t \<mapsto> collect (output_df df))) \<and>
      (resolve (table_name path0) = Some t \<longrightarrow>
         (case save_results resolve path0 df0 cat of
            Inl e \<Rightarrow> Inl e
          | Inr cat1 \<Rightarrow> save_results resolve path df cat1)
           = Inr (cat(t \<mapsto> collect (output_df df)))))"
  by (simp add: save_results_def saveAsTable_def split: option.splits)

theorem save_results_overwrites_witness:
  "plain_name (table_name ''data/RC_2015-01'') = Some ''rc201501'' \<and>
   plain_name (table_name ''old/rc-2015-01'') = Some ''rc201501'' \<and>
   (\<exists>cat'. save_results plain_name ''data/RC_2015-01''
         [(''subreddit'', [Text ''aww'' :: real cell])]
         [''rc201501'' \<mapsto> [ [(''subreddit'', Text ''pics'')], [(''subreddit'', Text ''cats'')]]]
       = Inr cat' \<and>
     cat' ''rc201501'' = Some [ [(''subreddit'', Text ''aww'')]]) \<and>
   (case save_results plain_name ''old/rc-2015-01''
           [(''subreddit'', [Text ''pics'' :: real cell, Text ''cats''])] Map.empty of
      Inl e \<Rightarrow> Inl e
    | Inr cat1 \<Rightarrow>
        save_results plain_name ''data/RC_2015-01''
          [(''subreddit'', [Text ''aww'' :: real cell])] cat1)
     = Inr [''rc201501'' \<mapsto> [ [(''subreddit'', Text ''aww'')]]]"
proof -
  have h1: "plain_name (table_name ''data/RC_2015-01'') = Some ''rc201501''" by code_simp
  have h2: "plain_name (table_name ''old/rc-2015-01'') = Some ''rc201501''" by code_simp
  have h3: "collect (output_df [(''subreddit'', [Text ''aww'' :: real cell])])
     = [ [(''subreddit'', Text ''aww'')]]"
    by code_simp
  have a: "save_results plain_name ''data/RC_2015-01''
         [(''subreddit'', [Text ''aww'' :: real cell])]
         [''rc201501'' \<mapsto> [ [(''subreddit'', Text ''pics'')], [(''subreddit'', Text ''cats'')]]]
       = Inr ([''rc201501'' \<mapsto> [ [(''subreddit'', Text ''pics'')], [(''subreddit'', Text ''cats'')]]]
               (''rc201501'' \<mapsto> [ [(''subreddit'', Text ''aww'')]]))"
    using h1 h3
      save_results_overwrites [of plain_name "''data/RC_2015-01''"
        "[(''subreddit'', [Text ''aww'' :: real cell])]"
        "[''rc201501'' \<mapsto> [ [(''subreddit'', Text ''pics'')], [(''subreddit'', Text ''cats'')]]]"
        "''rc201501''"]
    by simp
  have b: "(case save_results plain_name ''old/rc-2015-01''
           [(''subreddit'', [Text ''pics'' :: real cell, Text ''cats''])] Map.empty of
      Inl e \<Rightarrow> Inl e
    | Inr cat1 \<Rightarrow>
        save_results plain_name ''data/RC_2015-01''
          [(''subreddit'', [Text ''aww'' :: real cell])] cat1)
     = Inr [''rc201501'' \<mapsto> [ [(''subreddit'', Text ''aww'')]]]"
    using h1 h2 h3
      save_results_overwrites [of plain_name "''data/RC_2015-01''"
        "[(''subreddit'', [Text ''aww'' :: real cell])]" Map.empty "''rc201501''"
        "''old/rc-2015-01''" "[(''subreddit'', [Text ''pics'' :: real cell, Text ''cats''])]"]
    by simp
  show ?thesis
    using h1 h2 a b by simp
qed

end
